theory Spec2Isabelle
  imports Main "HOL-Library.AList" "HOL-Library.Multiset" "HOL-Library.Word"
begin

section \<open>Common data: errors, bytes\<close>

text \<open>
  Every exception the two scripts can raise is a value of \<open>error\<close>; a function that can
  raise returns \<open>error + 'a\<close>, with \<open>Inl\<close> for the exception.
\<close>

datatype error =
    NameError
  | IOError
  | IndexError
  | OSError
  | CalledProcessError int

type_synonym bytes = "8 word list"

section \<open>Locus Regrouper: \<^verbatim>\<open>libexec/gfr/genealign_from_allgenes.py\<close>\<close>

subsection \<open>Python and library primitives the script calls\<close>

text \<open>
  A \<open>SeqRecord\<close> of Biopython, with the fields the FASTA reader fills. The script only
  ever reads and assigns \<open>id\<close> (here \<open>seq_id\<close>, since \<open>id\<close> is the identity of HOL).
\<close>

record seq_record =
  seq_id :: string
  name :: string
  description :: string
  seq :: string

text \<open>\<open>list(s)\<close> of a Python 2 string: the list of its one-character strings.\<close>

definition list_str :: "string \<Rightarrow> string list" where
  "list_str s = map (\<lambda>c. [c]) s"

text \<open>\<open>''.join(xs)\<close>.\<close>

definition join :: "string list \<Rightarrow> string" where
  "join xs = concat xs"

text \<open>
  \<open>xs.pop(i)\<close>: a negative index counts from the end; an index out of range (and any
  index on the empty list) raises \<open>IndexError\<close>. The result is the removed element and
  the list without it. \<open>xs.pop()\<close> is \<open>xs.pop(-1)\<close>.
\<close>

definition pop :: "'a list \<Rightarrow> int \<Rightarrow> error + ('a \<times> 'a list)" where
  "pop xs i =
     (let n = int (length xs); j = (if i < 0 then i + n else i)
      in if j < 0 \<or> n \<le> j then Inl IndexError
         else Inr (xs ! nat j, take (nat j) xs @ drop (Suc (nat j)) xs))"

text \<open>\<open>p.rfind(c)\<close> for a single character: the index of its last occurrence, or \<open>-1\<close>.\<close>

definition rfind :: "string \<Rightarrow> char \<Rightarrow> int" where
  "rfind p c =
     (if c \<in> set p
      then int (length p) - 1 - int (length (takeWhile (\<lambda>x. x \<noteq> c) (rev p)))
      else - 1)"

text \<open>\<open>os.path.basename\<close> (posixpath): everything after the last slash.\<close>

definition basename :: "string \<Rightarrow> string" where
  "basename p = (let i = rfind p CHR ''/'' + 1 in drop (nat i) p)"

text \<open>
  \<open>os.path.splitext\<close> (posixpath, through \<open>genericpath._splitext\<close>): the extension starts
  at the last dot of the last path component, unless that component has only dots before
  it. \<open>splitext_scan\<close> is the \<open>while filenameIndex < dotIndex\<close> loop that skips leading
  dots; it returns whether a character other than a dot was found.
\<close>

function splitext_scan :: "string \<Rightarrow> nat \<Rightarrow> nat \<Rightarrow> bool" where
  "splitext_scan p filenameIndex dotIndex =
     (if filenameIndex < dotIndex
      then (if p ! filenameIndex \<noteq> CHR ''.'' then True
            else splitext_scan p (filenameIndex + 1) dotIndex)
      else False)"
  by pat_completeness auto
termination
  by (relation "measure (\<lambda>(p, filenameIndex, dotIndex). dotIndex - filenameIndex)") auto

declare splitext_scan.simps [simp del]

definition splitext :: "string \<Rightarrow> string \<times> string" where
  "splitext p =
     (let sepIndex = rfind p CHR ''/'';
          dotIndex = rfind p CHR ''.''
      in if dotIndex > sepIndex
         then (if splitext_scan p (nat (sepIndex + 1)) (nat dotIndex)
               then (take (nat dotIndex) p, drop (nat dotIndex) p)
               else (p, []))
         else (p, []))"

subsection \<open>The grouping dictionary, the operating system and the file store\<close>

text \<open>
  \<open>seqdict\<close> maps a locus key to the list of records collected for it. It is an
  association list in insertion order with one entry per key: \<open>AList.update\<close> replaces
  the value of a key that is present and appends a new entry otherwise, as assignment to
  a dictionary does, and \<open>map_of\<close> is the lookup.

  The FASTA reader and writer are Biopython's. A file is represented by the list of
  records that \<open>SeqIO.parse\<close> yields from it and that \<open>SeqIO.write\<close> stores in it.

  What the operating system does with a path is the parameter \<open>os\<close>: opening a path, for
  reading or for writing, either fails (a missing directory, a name that is too long, a
  directory in the place of the file, a missing permission), and the script lets the
  error escape, or it yields the identity of the file that the path names. Two paths
  that name one file, such as \<open>d/x.fa\<close> and \<open>d/./x.fa\<close>, yield the same identity. The
  file store maps the identity of a file to its content, if the file exists. Messages
  printed to standard output are not part of the model.
\<close>

type_synonym seqdict = "(string \<times> seq_record list) list"

datatype mode = Reading | Writing

type_synonym 'f opener = "mode \<Rightarrow> string \<Rightarrow> error + 'f"

type_synonym 'f store = "'f \<rightharpoonup> seq_record list"

text \<open>
  \<open>SeqIO.parse(path, "fasta")\<close>, run to the end: the records of the file, or the error of
  opening it; a path that names no existing file raises \<open>IOError\<close>.
\<close>

definition SeqIO_parse :: "'f opener \<Rightarrow> 'f store \<Rightarrow> string \<Rightarrow> error + seq_record list" where
  "SeqIO_parse os files path =
     (case os Reading path of
        Inl e \<Rightarrow> Inl e
      | Inr file \<Rightarrow>
          (case files file of
             None \<Rightarrow> Inl IOError
           | Some records \<Rightarrow> Inr records))"

text \<open>
  \<open>SeqIO.write(records, path, "fasta")\<close>: the file that the path names is created or
  replaced; when the path cannot be opened the error is raised and nothing changes.
\<close>

definition SeqIO_write :: "'f opener \<Rightarrow> seq_record list \<Rightarrow> string \<Rightarrow> 'f store \<Rightarrow> error + 'f store" where
  "SeqIO_write os records path files =
     (case os Writing path of
        Inl e \<Rightarrow> Inl e
      | Inr file \<Rightarrow> Inr (files(file \<mapsto> records)))"

subsection \<open>\<open>read_resort\<close>\<close>

text \<open>
  Lines 15 to 22 and 25 of the script, the part of the loop body that looks at one
  record only: the locus key \<open>gene\<close> and the record with its identifier rewritten.
  With \<open>numalleles > 1\<close>, \<open>gene.pop(-2)\<close> and then \<open>gene.pop()\<close> take the last two
  characters off the identifier.
\<close>

definition rename_record :: "string \<Rightarrow> int \<Rightarrow> seq_record \<Rightarrow> error + (string \<times> seq_record)" where
  "rename_record species numalleles seq_record =
     (let allele0 = [];
          gene0 = list_str (seq_id seq_record);
          allele1 = allele0 @ [basename (fst (splitext species))]
      in case (if numalleles > 1
               then (case pop gene0 (- 2) of
                       Inl e \<Rightarrow> Inl e
                     | Inr (t1, gene1) \<Rightarrow>
                         (case pop gene1 (- 1) of
                            Inl e \<Rightarrow> Inl e
                          | Inr (t2, gene2) \<Rightarrow> Inr (allele1 @ [''_''] @ [t1] @ [t2], gene2)))
               else Inr (allele1, gene0)) of
           Inl e \<Rightarrow> Inl e
         | Inr (allele, gene) \<Rightarrow>
             Inr (join gene, seq_record\<lparr>seq_id := join allele\<rparr>))"

text \<open>
  Lines 23, 24 and 26: create the group if the key is new, then append the record to
  the group's list. The lookup \<open>seqdict[gene]\<close> of line 26 comes after the key has been
  created, so it never misses; the \<open>None\<close> case below is there for totality only.
\<close>

definition group_record :: "seqdict \<Rightarrow> string \<Rightarrow> seq_record \<Rightarrow> seqdict" where
  "group_record seqdict gene seq_record =
     (let seqdict1 = (if map_of seqdict gene = None then AList.update gene [] seqdict
                      else seqdict)
      in case map_of seqdict1 gene of
           None \<Rightarrow> seqdict1
         | Some records \<Rightarrow> AList.update gene (records @ [seq_record]) seqdict1)"

text \<open>The \<open>for seq_record in ...\<close> loop over the parsed records; an exception ends it.\<close>

fun read_resort_loop :: "string \<Rightarrow> int \<Rightarrow> seq_record list \<Rightarrow> seqdict \<Rightarrow> error + seqdict" where
  "read_resort_loop species numalleles [] seqdict = Inr seqdict"
| "read_resort_loop species numalleles (seq_record # rest) seqdict =
     (case rename_record species numalleles seq_record of
        Inl e \<Rightarrow> Inl e
      | Inr (gene, renamed) \<Rightarrow>
          read_resort_loop species numalleles rest (group_record seqdict gene renamed))"

text \<open>
  \<open>read_resort(species, seqdict, numalleles)\<close>. The function parses \<open>f\<close>, which is not
  one of its parameters but the module's global variable: after the operating system
  and the file store, the third argument of the model is the current binding of the
  global \<open>f\<close> (\<open>None\<close> while it is unbound, where reading it raises \<open>NameError\<close>).
\<close>

definition read_resort ::
  "'f opener \<Rightarrow> 'f store \<Rightarrow> string option \<Rightarrow> string \<Rightarrow> seqdict \<Rightarrow> int \<Rightarrow> error + seqdict" where
  "read_resort os files f species seqdict numalleles =
     (case f of
        None \<Rightarrow> Inl NameError
      | Some path \<Rightarrow>
          (case SeqIO_parse os files path of
             Inl e \<Rightarrow> Inl e
           | Inr records \<Rightarrow> read_resort_loop species numalleles records seqdict))"

subsection \<open>The script's top level\<close>

text \<open>
  \<open>for f in fafiles: seqdict = read_resort(f, seqdict, int(sys.argv[1]))\<close>: the loop
  variable is the global \<open>f\<close>, so each call runs with \<open>f\<close> bound to its own first
  argument.
\<close>

fun read_files :: "'f opener \<Rightarrow> 'f store \<Rightarrow> int \<Rightarrow> string list \<Rightarrow> seqdict \<Rightarrow> error + seqdict" where
  "read_files os files numalleles [] seqdict = Inr seqdict"
| "read_files os files numalleles (f # fafiles) seqdict =
     (case read_resort os files (Some f) f seqdict numalleles of
        Inl e \<Rightarrow> Inl e
      | Inr seqdict' \<Rightarrow> read_files os files numalleles fafiles seqdict')"

text \<open>
  \<open>for gene, records in seqdict.iteritems(): SeqIO.write(records, sys.argv[2]+'/loci/'+gene+'.fa', "fasta")\<close>,
  over the items in the order the dictionary yields them. The first write that raises
  ends the loop: the files written before it stay written, the later ones are not. The
  result is the file store at the end and the error, if one was raised.
\<close>

fun write_loci ::
  "'f opener \<Rightarrow> string \<Rightarrow> (string \<times> seq_record list) list \<Rightarrow> 'f store \<Rightarrow> 'f store \<times> error option" where
  "write_loci os base [] files = (files, None)"
| "write_loci os base ((gene, records) # items) files =
     (case SeqIO_write os records (base @ ''/loci/'' @ gene @ ''.fa'') files of
        Inl e \<Rightarrow> (files, Some e)
      | Inr files' \<Rightarrow> write_loci os base items files')"

text \<open>
  The whole run. Its inputs are \<open>int(sys.argv[1])\<close>, \<open>sys.argv[2]\<close>, the list \<open>fafiles\<close>
  that \<open>glob.glob(sys.argv[2]+"/loci/*.fa")\<close> returned, the operating system and the file
  store. The order in which a Python 2 dictionary yields its items is not specified
  (it follows the hashes of the keys, which change with the hash seed of the
  interpreter), so it is the parameter \<open>iteritems\<close>: a function that lists the items of
  a dictionary in some order. An error while reading ends the run before anything is
  written.
\<close>

definition main ::
  "(seqdict \<Rightarrow> (string \<times> seq_record list) list) \<Rightarrow> 'f opener \<Rightarrow> int \<Rightarrow> string \<Rightarrow> string list \<Rightarrow>
   'f store \<Rightarrow> 'f store \<times> error option" where
  "main iteritems os numalleles base fafiles files =
     (case read_files os files numalleles fafiles [] of
        Inl e \<Rightarrow> (files, Some e)
      | Inr seqdict \<Rightarrow> write_loci os base (iteritems seqdict) files)"

subsection \<open>The regrouping in the words of the specification\<close>

text \<open>
  The records the run reads, in reading order, each with the path of the file it came
  from. This list is not computed by the script; it names the input in the statements
  about the output.
\<close>

definition records_read :: "'f opener \<Rightarrow> 'f store \<Rightarrow> string list \<Rightarrow> (string \<times> seq_record) list" where
  "records_read os files fafiles =
     concat (map (\<lambda>f. map (Pair f)
                         (case SeqIO_parse os files f of Inl e \<Rightarrow> [] | Inr records \<Rightarrow> records))
                 fafiles)"

text \<open>
  The locus key and the new identifier as the specification describes them, not as the
  script computes them: with more than one allele the last two characters of the
  identifier are the allele tokens, the characters before them are the locus key, and the
  new identifier is the species label, an underscore and the two tokens; otherwise the
  key is the identifier and the new identifier is the species label.
\<close>

definition spec_locus_key :: "int \<Rightarrow> seq_record \<Rightarrow> string" where
  "spec_locus_key numalleles r =
     (if 1 < numalleles then take (length (seq_id r) - 2) (seq_id r) else seq_id r)"

definition spec_new_id :: "string \<Rightarrow> int \<Rightarrow> seq_record \<Rightarrow> string" where
  "spec_new_id species numalleles r =
     basename (fst (splitext species)) @
     (if 1 < numalleles then ''_'' @ drop (length (seq_id r) - 2) (seq_id r) else [])"

section \<open>Pipeline Verifier: \<^verbatim>\<open>tests/test_sisrs.py\<close>\<close>

subsection \<open>Directories and the module's start-up code\<close>

text \<open>
  A directory is the association list of its entries, in the order \<open>os.listdir\<close> gives
  them; an entry is a regular file with its bytes, or a subdirectory. A path that names
  no directory is \<open>None\<close>.
\<close>

datatype node = File bytes | Dir "(string \<times> node) list"

type_synonym directory = "(string \<times> node) list"

definition out_base_dir :: string where
  "out_base_dir = ''output''"

text \<open>\<open>os.path.exists(p)\<close> for a one-component relative path, in the working directory.\<close>

definition path_exists :: "directory \<Rightarrow> string \<Rightarrow> bool" where
  "path_exists cwd p = (map_of cwd p \<noteq> None)"

text \<open>
  \<open>shutil.rmtree(p)\<close> with the default \<open>ignore_errors=False\<close>: the directory and
  everything below it are gone afterwards; on a path that is missing or is not a
  directory, \<open>os.listdir\<close> fails and the \<open>OSError\<close> is raised.
\<close>

definition rmtree :: "directory \<Rightarrow> string \<Rightarrow> error + directory" where
  "rmtree cwd p =
     (case map_of cwd p of
        None \<Rightarrow> Inl OSError
      | Some (File b) \<Rightarrow> Inl OSError
      | Some (Dir entries) \<Rightarrow> Inr (AList.delete p cwd))"

text \<open>
  Lines 11 and 12, run when the module is imported, before any test function:
  \<^verbatim>\<open>if os.path.exists(out_base_dir): shutil.rmtree(out_base_dir)\<close>
\<close>

definition module_init :: "directory \<Rightarrow> error + directory" where
  "module_init cwd =
     (if path_exists cwd out_base_dir then rmtree cwd out_base_dir else Inr cwd)"

subsection \<open>External commands\<close>

text \<open>
  The operating system's part in \<open>subprocess\<close> is the parameter \<open>exec\<close>: running an
  argument list either fails to start (\<open>OSError\<close>) or ends with an exit status and the
  bytes written to standard output. What the command does to the file system is outside
  the model.
\<close>

type_synonym os_exec = "string list \<Rightarrow> error + (int \<times> bytes)"

text \<open>\<open>subprocess.check_call\<close>: returns 0, raises \<open>CalledProcessError\<close> on any other status.\<close>

definition check_call :: "os_exec \<Rightarrow> string list \<Rightarrow> error + int" where
  "check_call exec popenargs =
     (case exec popenargs of
        Inl e \<Rightarrow> Inl e
      | Inr (retcode, out) \<Rightarrow>
          (if retcode \<noteq> 0 then Inl (CalledProcessError retcode) else Inr 0))"

text \<open>\<open>subprocess.check_output\<close>: the captured output, or \<open>CalledProcessError\<close>.\<close>

definition check_output :: "os_exec \<Rightarrow> string list \<Rightarrow> error + bytes" where
  "check_output exec popenargs =
     (case exec popenargs of
        Inl e \<Rightarrow> Inl e
      | Inr (retcode, out) \<Rightarrow>
          (if retcode \<noteq> 0 then Inl (CalledProcessError retcode) else Inr out))"

definition run :: "os_exec \<Rightarrow> string list \<Rightarrow> error + int" where
  "run exec args = check_call exec args"

definition bam_match :: "os_exec \<Rightarrow> string \<Rightarrow> string \<Rightarrow> error + bool" where
  "bam_match exec f1 f2 =
     (let bam_diff_command = [''bam'', ''diff'', ''--all'', ''--in1'', f1, ''--in2'', f2]
      in case check_output exec bam_diff_command of
           Inl e \<Rightarrow> Inl e
         | Inr output \<Rightarrow> Inr (length output = 0))"

definition test_sisrs :: "os_exec \<Rightarrow> error + int" where
  "test_sisrs exec = run exec [''pip'', ''freeze'']"

subsection \<open>Comparing files and directories\<close>

text \<open>The entry called \<open>x\<close> in a directory: what \<open>os.stat(os.path.join(d, x))\<close> finds.\<close>

definition entry :: "directory option \<Rightarrow> string \<Rightarrow> node option" where
  "entry d x = (case d of None \<Rightarrow> None | Some entries \<Rightarrow> map_of entries x)"

text \<open>
  \<open>filecmp.cmp(f1, f2, shallow=False)\<close>: \<open>os.stat\<close> raises \<open>OSError\<close> on a missing file;
  anything that is not a regular file compares unequal; regular files are equal when
  their sizes and then their contents are.
\<close>

definition cmp :: "node option \<Rightarrow> node option \<Rightarrow> error + bool" where
  "cmp f1 f2 =
     (case f1 of
        None \<Rightarrow> Inl OSError
      | Some n1 \<Rightarrow>
          (case f2 of
             None \<Rightarrow> Inl OSError
           | Some n2 \<Rightarrow>
               (case n1 of
                  Dir es1 \<Rightarrow> Inr False
                | File b1 \<Rightarrow>
                    (case n2 of
                       Dir es2 \<Rightarrow> Inr False
                     | File b2 \<Rightarrow>
                         (if length b1 \<noteq> length b2 then Inr False else Inr (b1 = b2))))))"

definition files_match :: "node option \<Rightarrow> node option \<Rightarrow> error + bool" where
  "files_match f1 f2 = cmp f1 f2"

text \<open>
  \<open>filecmp._cmp\<close>: \<open>not abs(cmp(a, b, sh))\<close>, or 2 when \<open>cmp\<close> raised; so 0 is a match,
  1 a mismatch and 2 an error.
\<close>

definition cmp_index :: "node option \<Rightarrow> node option \<Rightarrow> nat" where
  "cmp_index a b = (case cmp a b of Inl e \<Rightarrow> 2 | Inr equal \<Rightarrow> (if equal then 0 else 1))"

text \<open>
  \<open>filecmp.cmpfiles(a, b, common, shallow=False)\<close>: each name of \<open>common\<close> is appended
  to the list its comparison selects, \<open>res[_cmp(ax, bx, shallow)].append(x)\<close>.
\<close>

fun cmpfiles_loop ::
  "directory option \<Rightarrow> directory option \<Rightarrow> string list \<Rightarrow>
   string list \<times> string list \<times> string list \<Rightarrow> string list \<times> string list \<times> string list" where
  "cmpfiles_loop a b [] res = res"
| "cmpfiles_loop a b (x # common) (match, mismatch, errors) =
     (let i = cmp_index (entry a x) (entry b x)
      in cmpfiles_loop a b common
           (if i = 0 then (match @ [x], mismatch, errors)
            else if i = 1 then (match, mismatch @ [x], errors)
            else (match, mismatch, errors @ [x])))"

definition cmpfiles ::
  "directory option \<Rightarrow> directory option \<Rightarrow> string list \<Rightarrow>
   string list \<times> string list \<times> string list" where
  "cmpfiles a b common = cmpfiles_loop a b common ([], [], [])"

text \<open>\<open>os.listdir(d)\<close>: the names in the directory; \<open>OSError\<close> when there is none.\<close>

definition listdir :: "directory option \<Rightarrow> error + string list" where
  "listdir d = (case d of None \<Rightarrow> Inl OSError | Some entries \<Rightarrow> Inr (map fst entries))"

definition dirs_match :: "directory option \<Rightarrow> directory option \<Rightarrow> error + bool" where
  "dirs_match d1 d2 =
     (case listdir d1 of
        Inl e \<Rightarrow> Inl e
      | Inr names \<Rightarrow>
          (case cmpfiles d1 d2 names of
             (match, mismatch, errors) \<Rightarrow> Inr (length mismatch = 0 \<and> length errors = 0)))"

section \<open>Concrete inputs\<close>

text \<open>A record as the FASTA reader builds it from a title line that holds only the identifier.\<close>

definition example_record :: "string \<Rightarrow> seq_record" where
  "example_record i = \<lparr>seq_id = i, name = i, description = i, seq = ''ACGT''\<rparr>"

text \<open>
  An operating system for the examples: a file system without links whose only
  directories are \<open>run\<close> and \<open>run/loci\<close>, with the working directory at its root. The
  identity of a file is the list of the names on the way to it. \<open>split_path\<close> cuts a
  path at its slashes; \<open>walk\<close> follows the directory part of a path, where an empty
  name and \<open>.\<close> stay in place, \<open>..\<close> goes up and any other name must be a directory;
  the last name must be a proper file name of at most 255 characters that is not a
  directory.
\<close>

fun split_path :: "string \<Rightarrow> string list" where
  "split_path [] = [[]]"
| "split_path (c # cs) =
     (if c = CHR ''/'' then [] # split_path cs
      else (case split_path cs of [] \<Rightarrow> [[c]] | w # ws \<Rightarrow> (c # w) # ws))"

fun walk :: "string list list \<Rightarrow> string list \<Rightarrow> string list \<Rightarrow> error + string list" where
  "walk dirs cur [] = Inr cur"
| "walk dirs cur (c # cs) =
     (if c = [] \<or> c = ''.'' then walk dirs cur cs
      else if c = ''..'' then walk dirs (butlast cur) cs
      else if cur @ [c] \<in> set dirs then walk dirs (cur @ [c]) cs
      else Inl IOError)"

definition example_dirs :: "string list list" where
  "example_dirs = [[''run''], [''run'', ''loci'']]"

definition example_os :: "string list opener" where
  "example_os m path =
     (let cs = split_path path
      in case walk example_dirs [] (butlast cs) of
           Inl e \<Rightarrow> Inl e
         | Inr cur \<Rightarrow>
             (let c = last cs
              in if c = [] \<or> c = ''.'' \<or> c = ''..'' \<or> 255 < length c \<or> cur @ [c] \<in> set example_dirs
                 then Inl IOError
                 else Inr (cur @ [c])))"

text \<open>The two species files of the end-to-end example, and the list the pattern yields.\<close>

definition example_files :: "string list store" where
  "example_files =
     [[''run'', ''loci'', ''human.fa''] \<mapsto> [example_record ''geneA_1_2''],
      [''run'', ''loci'', ''chimp.fa''] \<mapsto> [example_record ''geneA_1_3'']]"

definition example_fafiles :: "string list" where
  "example_fafiles = [''run/loci/human.fa'', ''run/loci/chimp.fa'']"

text \<open>Species files whose records have identifiers of two characters and of one.\<close>

definition example_short_files :: "string list store" where
  "example_short_files =
     [[''run'', ''loci'', ''human.fa''] \<mapsto> [example_record ''ab''],
      [''run'', ''loci'', ''mouse.fa''] \<mapsto> [example_record ''x'']]"

text \<open>
  A species file with two records whose locus keys, the empty string and \<open>./\<close>, are
  different strings that give two paths to one file: \<open>run/loci/.fa\<close> and
  \<open>run/loci/./.fa\<close>.
\<close>

definition example_alias_files :: "string list store" where
  "example_alias_files =
     [[''run'', ''loci'', ''human.fa''] \<mapsto> [example_record ''ab'', example_record ''./cd'']]"

text \<open>
  A species file with a record whose locus key \<open>a/b\<close> gives an output path in a
  directory that does not exist.
\<close>

definition example_slash_files :: "string list store" where
  "example_slash_files =
     [[''run'', ''loci'', ''human.fa''] \<mapsto> [example_record ''a/b12'']]"

text \<open>A species file with records of two loci.\<close>

definition example_two_loci :: "string list store" where
  "example_two_loci =
     [[''run'', ''loci'', ''human.fa''] \<mapsto> [example_record ''geneA12'', example_record ''geneB12'']]"

text \<open>
  The identifiers of the records in a file after a run, \<open>None\<close> when the file does not
  exist.
\<close>

definition ids_at :: "'f store \<times> error option \<Rightarrow> 'f \<Rightarrow> string list option" where
  "ids_at result file = map_option (map seq_id) (fst result file)"

text \<open>An operating system on which every command ends with exit status 1 and no output.\<close>

definition example_exec :: os_exec where
  "example_exec popenargs = Inr (1, [])"

text \<open>A working directory with an output directory left by an earlier run.\<close>

definition example_cwd :: directory where
  "example_cwd =
     [(''output'', Dir [(''old.txt'', File [1, 2, 3])]), (''pipeline_stages'', Dir [])]"

text \<open>A directory, and the same directory with one more file.\<close>

definition example_dir :: directory where
  "example_dir = [(''alignment.nex'', File [35, 78, 10])]"

definition example_dir_extra :: directory where
  "example_dir_extra = [(''alignment.nex'', File [35, 78, 10]), (''extra.txt'', File [7])]"

section \<open>Properties of the Locus Regrouper\<close>

subsection \<open>Strings, lists and paths\<close>

lemma join_list_str: "join (list_str s) = s"
  by (induction s) (simp_all add: join_def list_str_def)

lemma list_str_append: "list_str (xs @ ys) = list_str xs @ list_str ys"
  by (simp add: list_str_def)

lemma pop_last: "pop (xs @ [b]) (- 1) = Inr (b, xs)"
  by (simp add: pop_def Let_def nat_add_distrib)

lemma pop_second_last: "pop (xs @ [a, b]) (- 2) = Inr (a, xs @ [b])"
  by (simp add: pop_def Let_def nth_append)

lemma pop_short: "length xs < 2 \<Longrightarrow> pop xs (- 2) = Inl IndexError"
  by (simp add: pop_def Let_def)

lemma rename_record_single:
  "\<not> 1 < numalleles \<Longrightarrow>
   rename_record species numalleles r =
     Inr (seq_id r, r\<lparr>seq_id := basename (fst (splitext species))\<rparr>)"
  by (simp add: rename_record_def join_list_str join_def [of "[_]"])

lemma rename_record_alleles:
  "1 < numalleles \<Longrightarrow> seq_id r = key @ [t1, t2] \<Longrightarrow>
   rename_record species numalleles r =
     Inr (key, r\<lparr>seq_id := basename (fst (splitext species)) @ ''_'' @ [t1, t2]\<rparr>)"
  by (simp add: rename_record_def list_str_append pop_last join_list_str
      pop_second_last [of "list_str key" "[t1]" "[t2]", simplified] list_str_def [of "[t1, t2]"]
      list_str_def [of "[t2]"] join_def [of "[_, _, _, _]"])

lemma rename_record_short:
  "1 < numalleles \<Longrightarrow> length (seq_id r) < 2 \<Longrightarrow>
   rename_record species numalleles r = Inl IndexError"
  by (simp add: rename_record_def pop_short list_str_def)

lemma rfind_absent: "c \<notin> set p \<Longrightarrow> rfind p c = - 1"
  by (simp add: rfind_def)

lemma rfind_last: "c \<notin> set ys \<Longrightarrow> rfind (xs @ c # ys) c = int (length xs)"
proof -
  assume a: "c \<notin> set ys"
  then have "takeWhile (\<lambda>x. x \<noteq> c) (rev ys @ c # rev xs) = rev ys"
    by (auto simp add: takeWhile_tail)
  then show ?thesis by (simp add: rfind_def)
qed

lemma sep_index:
  assumes "pre = [] \<or> last pre = CHR ''/''" and "CHR ''/'' \<notin> set rest"
  shows "rfind (pre @ rest) CHR ''/'' + 1 = int (length pre)"
proof (cases "pre = []")
  case True
  with assms(2) show ?thesis by (simp add: rfind_absent)
next
  case False
  with assms(1) have "pre = butlast pre @ [CHR ''/'']"
    by (metis append_butlast_last_id)
  then obtain q where q: "pre = q @ [CHR ''/'']" ..
  have "rfind (q @ CHR ''/'' # rest) CHR ''/'' = int (length q)"
    using assms(2) by (rule rfind_last)
  then show ?thesis by (simp add: q)
qed

lemma basename_plain:
  assumes "pre = [] \<or> last pre = CHR ''/''" and "CHR ''/'' \<notin> set nm"
  shows "basename (pre @ nm) = nm"
  using sep_index [OF assms] by (simp add: basename_def)

lemma splitext_plain:
  assumes pre: "pre = [] \<or> last pre = CHR ''/''"
    and nm: "CHR ''/'' \<notin> set nm" "nm \<noteq> []" "hd nm \<noteq> CHR ''.''"
    and ext: "CHR ''.'' \<notin> set ext" "CHR ''/'' \<notin> set ext"
  shows "splitext (pre @ nm @ ''.'' @ ext) = (pre @ nm, ''.'' @ ext)"
proof -
  let ?p = "pre @ nm @ ''.'' @ ext"
  have sep: "rfind ?p CHR ''/'' + 1 = int (length pre)"
    using sep_index [OF pre, of "nm @ ''.'' @ ext"] nm(1) ext(2) by simp
  have "rfind ((pre @ nm) @ CHR ''.'' # ext) CHR ''.'' = int (length (pre @ nm))"
    using ext(1) by (rule rfind_last)
  then have dot: "rfind ?p CHR ''.'' = int (length pre + length nm)" by simp
  have first: "?p ! length pre = hd nm"
    using nm(2) by (simp add: nth_append hd_conv_nth)
  have scan: "splitext_scan ?p (length pre) (length pre + length nm)"
    using nm(2,3) first by (subst splitext_scan.simps) simp
  have sep': "nat (rfind ?p CHR ''/'' + 1) = length pre" using sep by simp
  have gt: "rfind ?p CHR ''/'' < rfind ?p CHR ''.''" using sep dot nm(2) by simp
  show ?thesis
    unfolding splitext_def Let_def using gt scan by (simp only: sep' dot nat_int if_True) simp
qed

lemma species_label:
  assumes pre: "pre = [] \<or> last pre = CHR ''/''"
    and nm: "CHR ''/'' \<notin> set nm" "nm \<noteq> []" "hd nm \<noteq> CHR ''.''"
    and ext: "CHR ''.'' \<notin> set ext" "CHR ''/'' \<notin> set ext"
  shows "basename (fst (splitext (pre @ nm @ ''.'' @ ext))) = nm"
  by (simp only: splitext_plain [OF assms] fst_conv basename_plain [OF pre nm(1)])

subsection \<open>Grouping\<close>

lemma map_of_group_record:
  "map_of (group_record d g r) =
     (map_of d)(g \<mapsto> (case map_of d g of None \<Rightarrow> [] | Some rs \<Rightarrow> rs) @ [r])"
  by (auto simp add: group_record_def Let_def AList.update_conv' split: option.splits)

lemma keys_group_record: "fst ` set (group_record d g r) = insert g (fst ` set d)"
  by (auto simp add: group_record_def Let_def AList.dom_update AList.update_conv'
      split: option.splits)

lemma distinct_group_record:
  "distinct (map fst d) \<Longrightarrow> distinct (map fst (group_record d g r))"
  by (simp add: group_record_def Let_def AList.distinct_update split: option.splits)

lemma read_resort_loop_groups:
  assumes "read_resort_loop species n rs d = Inr d'"
    and "distinct (map fst d)"
    and "fst ` set d = fst ` set tagged"
    and "\<And>g. g \<in> fst ` set tagged \<Longrightarrow> map_of d g = Some (map snd (filter (\<lambda>t. fst t = g) tagged))"
  shows "\<exists>new. list_all2 (\<lambda>r t. rename_record species n r = Inr t) rs new \<and>
           distinct (map fst d') \<and>
           fst ` set d' = fst ` set (tagged @ new) \<and>
           (\<forall>g \<in> fst ` set (tagged @ new).
              map_of d' g = Some (map snd (filter (\<lambda>t. fst t = g) (tagged @ new))))"
  using assms
proof (induction rs arbitrary: d tagged)
  case Nil
  then show ?case by (intro exI [of _ "[]"]) simp
next
  case (Cons r rs)
  from Cons.prems(1) obtain g r' where
    rn: "rename_record species n r = Inr (g, r')" and
    rest: "read_resort_loop species n rs (group_record d g r') = Inr d'"
    by (auto split: sum.splits)
  let ?d1 = "group_record d g r'"
  let ?t1 = "tagged @ [(g, r')]"
  have d1: "distinct (map fst ?d1)" using Cons.prems(2) by (rule distinct_group_record)
  have k1: "fst ` set ?d1 = fst ` set ?t1"
    using Cons.prems(3) by (simp add: keys_group_record)
  have m1: "map_of ?d1 h = Some (map snd (filter (\<lambda>t. fst t = h) ?t1))"
    if "h \<in> fst ` set ?t1" for h
  proof (cases "h = g")
    case True
    show ?thesis
    proof (cases "g \<in> fst ` set tagged")
      case True
      with Cons.prems(4) \<open>h = g\<close> show ?thesis by (simp add: map_of_group_record)
    next
      case False
      then have "map_of d g = None" "filter (\<lambda>t. fst t = g) tagged = []"
        using Cons.prems(3) by (auto simp add: map_of_eq_None_iff filter_empty_conv)
      with \<open>h = g\<close> show ?thesis by (simp add: map_of_group_record)
    qed
  next
    case False
    with that have "h \<in> fst ` set tagged" by auto
    with Cons.prems(4) False show ?thesis by (simp add: map_of_group_record)
  qed
  from Cons.IH [OF rest d1 k1 m1] obtain new where
    new: "list_all2 (\<lambda>r t. rename_record species n r = Inr t) rs new"
      "distinct (map fst d')"
      "fst ` set d' = fst ` set (?t1 @ new)"
      "\<forall>g \<in> fst ` set (?t1 @ new).
          map_of d' g = Some (map snd (filter (\<lambda>t. fst t = g) (?t1 @ new)))"
    by blast
  show ?case
    using rn new by (intro exI [of _ "(g, r') # new"]) simp
qed

subsection \<open>When reading succeeds, and when it raises\<close>

lemma two_tail: "2 \<le> length s \<Longrightarrow> \<exists>key a b. s = key @ [a, b]"
proof -
  assume len: "2 \<le> length s"
  then have "s \<noteq> []" by auto
  then obtain xs b where s: "s = xs @ [b]" by (metis rev_exhaust)
  with len have "xs \<noteq> []" by auto
  then obtain key a where "xs = key @ [a]" by (metis rev_exhaust)
  with s show ?thesis by simp
qed

lemma rename_record_succeeds:
  assumes "1 < n \<longrightarrow> 2 \<le> length (seq_id r)"
  shows "\<exists>t. rename_record species n r = Inr t"
proof (cases "1 < n")
  case True
  with assms obtain key a b where "seq_id r = key @ [a, b]" using two_tail by blast
  from rename_record_alleles [OF True this] show ?thesis by blast
next
  case False
  from rename_record_single [OF this] show ?thesis by blast
qed

lemma read_resort_loop_succeeds:
  "\<forall>r \<in> set rs. 1 < n \<longrightarrow> 2 \<le> length (seq_id r) \<Longrightarrow>
   \<exists>d'. read_resort_loop species n rs d = Inr d'"
proof (induction rs arbitrary: d)
  case Nil
  then show ?case by simp
next
  case (Cons r rs)
  then obtain g r' where "rename_record species n r = Inr (g, r')"
    using rename_record_succeeds [of n r species] by fastforce
  with Cons show ?case by simp
qed


lemma list_all2_pick:
  "list_all2 P xs ys \<Longrightarrow> x \<in> set xs \<Longrightarrow> \<exists>y \<in> set ys. P x y"
  by (induction rule: list_all2_induct) auto

lemma rename_record_label:
  "basename (fst (splitext species)) = basename (fst (splitext species')) \<Longrightarrow>
   rename_record species n r = rename_record species' n r"
  by (simp add: rename_record_def)

lemma read_resort_loop_label:
  "basename (fst (splitext species)) = basename (fst (splitext species')) \<Longrightarrow>
   read_resort_loop species n rs d = read_resort_loop species' n rs d"
  by (induction rs arbitrary: d)
    (simp_all add: rename_record_label [of species species'] split: sum.splits)

subsection \<open>The script against the words of the specification\<close>

lemma rename_record_spec:
  "rename_record species n r =
     (if 1 < n \<and> length (seq_id r) < 2 then Inl IndexError
      else Inr (spec_locus_key n r, r\<lparr>seq_id := spec_new_id species n r\<rparr>))"
proof (cases "1 < n")
  case False
  from rename_record_single [OF this, of species r] False show ?thesis
    by (simp add: spec_locus_key_def spec_new_id_def)
next
  case True
  show ?thesis
  proof (cases "length (seq_id r) < 2")
    case short: True
    from rename_record_short [OF True short, of species] True short show ?thesis by simp
  next
    case False
    then obtain key a b where id: "seq_id r = key @ [a, b]" using two_tail [of "seq_id r"] by auto
    from rename_record_alleles [OF True id, of species] True False show ?thesis
      by (simp add: spec_locus_key_def spec_new_id_def id)
  qed
qed

lemma tagged_spec:
  "list_all2 (\<lambda>(f, r) t. rename_record f n r = Inr t) xs tagged \<Longrightarrow>
   tagged = map (\<lambda>(f, r). (spec_locus_key n r, r\<lparr>seq_id := spec_new_id f n r\<rparr>)) xs"
  by (induction rule: list_all2_induct) (auto simp add: rename_record_spec split: if_splits)

lemma read_resort_Inr:
  "read_resort os files (Some f) species d n = Inr d' \<Longrightarrow>
   \<exists>rs. SeqIO_parse os files f = Inr rs \<and> read_resort_loop species n rs d = Inr d'"
  by (auto simp add: read_resort_def split: sum.splits)

lemma read_files_groups:
  assumes "read_files os files n fafiles d = Inr d'"
    and "distinct (map fst d)"
    and "fst ` set d = fst ` set tagged"
    and "\<And>g. g \<in> fst ` set tagged \<Longrightarrow> map_of d g = Some (map snd (filter (\<lambda>t. fst t = g) tagged))"
  shows "\<exists>new. list_all2 (\<lambda>(f, r) t. rename_record f n r = Inr t)
                  (records_read os files fafiles) new \<and>
           distinct (map fst d') \<and>
           fst ` set d' = fst ` set (tagged @ new) \<and>
           (\<forall>g \<in> fst ` set (tagged @ new).
              map_of d' g = Some (map snd (filter (\<lambda>t. fst t = g) (tagged @ new))))"
  using assms
proof (induction fafiles arbitrary: d tagged)
  case Nil
  then show ?case by (intro exI [of _ "[]"]) (simp add: records_read_def)
next
  case (Cons f fafiles)
  from Cons.prems(1) obtain d1 where
    one: "read_resort os files (Some f) f d n = Inr d1" and
    rest: "read_files os files n fafiles d1 = Inr d'"
    by (auto split: sum.splits)
  from read_resort_Inr [OF one] obtain rs where
    rs: "SeqIO_parse os files f = Inr rs" and loop: "read_resort_loop f n rs d = Inr d1" by blast
  from read_resort_loop_groups [OF loop Cons.prems(2,3,4)] obtain new1 where
    new1: "list_all2 (\<lambda>r t. rename_record f n r = Inr t) rs new1"
      "distinct (map fst d1)"
      "fst ` set d1 = fst ` set (tagged @ new1)"
      "\<forall>g \<in> fst ` set (tagged @ new1).
          map_of d1 g = Some (map snd (filter (\<lambda>t. fst t = g) (tagged @ new1)))"
    by blast
  from new1(4) have m1: "\<And>g. g \<in> fst ` set (tagged @ new1) \<Longrightarrow>
      map_of d1 g = Some (map snd (filter (\<lambda>t. fst t = g) (tagged @ new1)))" by blast
  from Cons.IH [OF rest new1(2,3) m1] obtain new2 where
    new2: "list_all2 (\<lambda>(f, r) t. rename_record f n r = Inr t)
        (records_read os files fafiles) new2"
      "distinct (map fst d')"
      "fst ` set d' = fst ` set ((tagged @ new1) @ new2)"
      "\<forall>g \<in> fst ` set ((tagged @ new1) @ new2).
          map_of d' g = Some (map snd (filter (\<lambda>t. fst t = g) ((tagged @ new1) @ new2)))"
    by blast
  have "list_all2 (\<lambda>(f, r) t. rename_record f n r = Inr t) (map (Pair f) rs) new1"
    using new1(1) by (simp add: list_all2_map1)
  then have "list_all2 (\<lambda>(f, r) t. rename_record f n r = Inr t)
      (records_read os files (f # fafiles)) (new1 @ new2)"
    using new2(1) rs by (simp add: records_read_def list_all2_appendI)
  with new2(2,3,4) show ?case
    by (intro exI [of _ "new1 @ new2"]) simp
qed

lemma read_files_spec:
  assumes "read_files os files n fafiles [] = Inr d"
  shows "distinct (map fst d)"
    and "fst ` set d = spec_locus_key n ` snd ` set (records_read os files fafiles)"
    and "g \<in> fst ` set d \<Longrightarrow>
         map_of d g =
           Some (map (\<lambda>(f, r). r\<lparr>seq_id := spec_new_id f n r\<rparr>)
                  (filter (\<lambda>(f, r). spec_locus_key n r = g) (records_read os files fafiles)))"
proof -
  let ?xs = "records_read os files fafiles"
  let ?F = "\<lambda>(f, r). (spec_locus_key n r, r\<lparr>seq_id := spec_new_id f n r\<rparr>)"
  from read_files_groups [OF assms, of "[]"] obtain tagged where
    t: "list_all2 (\<lambda>(f, r) t. rename_record f n r = Inr t) ?xs tagged"
      "distinct (map fst d)"
      "fst ` set d = fst ` set tagged"
      "\<forall>g \<in> fst ` set tagged. map_of d g = Some (map snd (filter (\<lambda>t. fst t = g) tagged))"
    by auto
  from tagged_spec [OF t(1)] have tg: "tagged = map ?F ?xs" .
  show "distinct (map fst d)" by (rule t(2))
  show keys: "fst ` set d = spec_locus_key n ` snd ` set ?xs"
    by (simp only: t(3) tg) force
  have fm: "map snd (filter (\<lambda>t. fst t = g) (map ?F xs)) =
      map (\<lambda>(f, r). r\<lparr>seq_id := spec_new_id f n r\<rparr>)
        (filter (\<lambda>(f, r). spec_locus_key n r = g) xs)" for g and xs :: "(string \<times> seq_record) list"
    by (induction xs) auto
  show "map_of d g =
           Some (map (\<lambda>(f, r). r\<lparr>seq_id := spec_new_id f n r\<rparr>)
                  (filter (\<lambda>(f, r). spec_locus_key n r = g) ?xs))" if "g \<in> fst ` set d"
  proof -
    from that t(3) have "g \<in> fst ` set tagged" by simp
    with t(4) have "map_of d g = Some (map snd (filter (\<lambda>t. fst t = g) tagged))" by blast
    then show ?thesis by (simp only: tg fm)
  qed
qed

lemma read_files_succeeds:
  "\<forall>f \<in> set fafiles. \<exists>rs. SeqIO_parse os files f = Inr rs \<and>
      (\<forall>r \<in> set rs. 1 < n \<longrightarrow> 2 \<le> length (seq_id r)) \<Longrightarrow>
   \<exists>d'. read_files os files n fafiles d = Inr d'"
proof (induction fafiles arbitrary: d)
  case Nil
  then show ?case by simp
next
  case (Cons f fafiles)
  then obtain rs where rs: "SeqIO_parse os files f = Inr rs"
    "\<forall>r \<in> set rs. 1 < n \<longrightarrow> 2 \<le> length (seq_id r)" by auto
  from read_resort_loop_succeeds [OF rs(2)] obtain d1 where
    "read_resort_loop f n rs d = Inr d1" by blast
  with rs(1) have "read_resort os files (Some f) f d n = Inr d1"
    by (simp add: read_resort_def)
  moreover from Cons obtain d' where "read_files os files n fafiles d1 = Inr d'" by fastforce
  ultimately show ?case by simp
qed


subsection \<open>The write loop\<close>

lemma write_loci_other:
  "\<forall>g \<in> fst ` set items. os Writing (base @ ''/loci/'' @ g @ ''.fa'') \<noteq> Inr fid \<Longrightarrow>
   fst (write_loci os base items files) fid = files fid"
proof (induction items arbitrary: files)
  case Nil
  then show ?case by simp
next
  case (Cons item items)
  obtain g rs where item: "item = (g, rs)" by (cases item)
  from Cons.prems have rest: "\<forall>g \<in> fst ` set items.
      os Writing (base @ ''/loci/'' @ g @ ''.fa'') \<noteq> Inr fid"
    and here: "os Writing (base @ ''/loci/'' @ g @ ''.fa'') \<noteq> Inr fid"
    by (auto simp add: item)
  show ?case
  proof (cases "os Writing (base @ ''/loci/'' @ g @ ''.fa'')")
    case (Inl e)
    then show ?thesis by (simp add: item SeqIO_write_def)
  next
    case (Inr fid')
    with here have neq: "fid' \<noteq> fid" by auto
    have "fst (write_loci os base items (files(fid' \<mapsto> rs))) fid = (files(fid' \<mapsto> rs)) fid"
      using rest by (rule Cons.IH)
    also have "\<dots> = files fid" using neq by simp
    finally show ?thesis
      by (simp only: item write_loci.simps SeqIO_write_def Inr sum.case)
  qed
qed

lemma write_loci_step:
  "os Writing (base @ ''/loci/'' @ g @ ''.fa'') = Inr fid \<Longrightarrow>
   write_loci os base ((g, rs) # items) files = write_loci os base items (files(fid \<mapsto> rs))"
  by (simp only: write_loci.simps SeqIO_write_def sum.case)

lemma write_loci_completes:
  "\<forall>g \<in> fst ` set items. \<exists>fid. os Writing (base @ ''/loci/'' @ g @ ''.fa'') = Inr fid \<Longrightarrow>
   snd (write_loci os base items files) = None"
proof (induction items arbitrary: files)
  case Nil
  then show ?case by simp
next
  case (Cons item items)
  obtain g rs where item: "item = (g, rs)" by (cases item)
  from Cons.prems obtain fid where fid: "os Writing (base @ ''/loci/'' @ g @ ''.fa'') = Inr fid"
    by (auto simp add: item)
  from Cons.prems have rest: "\<forall>g \<in> fst ` set items.
      \<exists>fid. os Writing (base @ ''/loci/'' @ g @ ''.fa'') = Inr fid" by simp
  have "snd (write_loci os base items (files(fid \<mapsto> rs))) = None"
    using rest by (rule Cons.IH)
  then show ?case by (simp only: item write_loci_step [where os = os and base = base, OF fid])
qed

lemma write_loci_key:
  assumes "distinct (map fst items)"
    and "inj_on (\<lambda>g. os Writing (base @ ''/loci/'' @ g @ ''.fa'')) (fst ` set items)"
    and "\<forall>g \<in> fst ` set items. \<exists>fid. os Writing (base @ ''/loci/'' @ g @ ''.fa'') = Inr fid"
    and "(g, rs) \<in> set items"
    and "os Writing (base @ ''/loci/'' @ g @ ''.fa'') = Inr fid"
  shows "fst (write_loci os base items files) fid = Some rs"
  using assms
proof (induction items arbitrary: files)
  case Nil
  then show ?case by simp
next
  case (Cons item items)
  obtain g' rs' where item: "item = (g', rs')" by (cases item)
  from Cons.prems(1) have dist: "distinct (map fst items)" and fresh: "g' \<notin> fst ` set items"
    by (simp_all add: item)
  from Cons.prems(2) have inj: "inj_on (\<lambda>g. os Writing (base @ ''/loci/'' @ g @ ''.fa''))
      (fst ` set items)" by (simp add: item)
  from Cons.prems(3) have opens: "\<forall>g \<in> fst ` set items.
      \<exists>fid. os Writing (base @ ''/loci/'' @ g @ ''.fa'') = Inr fid" by simp
  from Cons.prems(3) obtain fid' where
    fid': "os Writing (base @ ''/loci/'' @ g' @ ''.fa'') = Inr fid'" by (auto simp add: item)
  show ?case
  proof (cases "(g, rs) \<in> set items")
    case True
    have "fst (write_loci os base items (files(fid' \<mapsto> rs'))) fid = Some rs"
      using dist inj opens True Cons.prems(5) by (rule Cons.IH)
    then show ?thesis by (simp only: item write_loci_step [where os = os and base = base, OF fid'])
  next
    case False
    with Cons.prems(4) have eq: "g' = g" "rs' = rs" by (auto simp add: item)
    with fid' Cons.prems(5) have same: "fid' = fid" by simp
    have no: "\<forall>h \<in> fst ` set items. os Writing (base @ ''/loci/'' @ h @ ''.fa'') \<noteq> Inr fid"
    proof
      fix h assume h: "h \<in> fst ` set items"
      with fresh eq have neq: "h \<noteq> g" by auto
      have hm: "h \<in> fst ` set (item # items)" using h by simp
      have gm: "g \<in> fst ` set (item # items)" using eq by (simp add: item)
      from inj_onD [OF Cons.prems(2) _ hm gm] neq
      have "os Writing (base @ ''/loci/'' @ h @ ''.fa'') \<noteq>
          os Writing (base @ ''/loci/'' @ g @ ''.fa'')" by blast
      with Cons.prems(5) show "os Writing (base @ ''/loci/'' @ h @ ''.fa'') \<noteq> Inr fid" by simp
    qed
    have "fst (write_loci os base items (files(fid \<mapsto> rs))) fid = (files(fid \<mapsto> rs)) fid"
      using no by (rule write_loci_other)
    also have "\<dots> = Some rs" by simp
        finally show ?thesis
      using fid' by (simp only: item eq same write_loci_step [where os = os and base = base])
  qed
qed

lemma write_loci_order:
  assumes "distinct (map fst items)"
    and "inj_on (\<lambda>g. os Writing (base @ ''/loci/'' @ g @ ''.fa'')) (fst ` set items)"
    and "\<forall>g \<in> fst ` set items. \<exists>fid. os Writing (base @ ''/loci/'' @ g @ ''.fa'') = Inr fid"
    and "mset items' = mset items"
  shows "write_loci os base items' files = write_loci os base items files"
proof (rule prod_eqI)
  have set_eq: "set items' = set items" using assms(4) by (rule mset_eq_setD)
  have "mset (map fst items') = mset (map fst items)" using assms(4) by simp
  then have dist': "distinct (map fst items')"
    using assms(1) by (metis mset_eq_imp_distinct_iff)
  have inj': "inj_on (\<lambda>g. os Writing (base @ ''/loci/'' @ g @ ''.fa'')) (fst ` set items')"
    using assms(2) by (simp only: set_eq)
  have opens': "\<forall>g \<in> fst ` set items'.
      \<exists>fid. os Writing (base @ ''/loci/'' @ g @ ''.fa'') = Inr fid"
    using assms(3) by (simp only: set_eq)
  show "snd (write_loci os base items' files) = snd (write_loci os base items files)"
    by (simp only: write_loci_completes [where os = os and base = base, OF assms(3)]
        write_loci_completes [where os = os and base = base, OF opens'])
  show "fst (write_loci os base items' files) = fst (write_loci os base items files)"
  proof
    fix fid
    show "fst (write_loci os base items' files) fid = fst (write_loci os base items files) fid"
    proof (cases "\<exists>g \<in> fst ` set items. os Writing (base @ ''/loci/'' @ g @ ''.fa'') = Inr fid")
      case True
      then obtain g rs where g: "(g, rs) \<in> set items"
        "os Writing (base @ ''/loci/'' @ g @ ''.fa'') = Inr fid" by auto
      from g(1) set_eq have g': "(g, rs) \<in> set items'" by simp
      show ?thesis
        by (simp only: write_loci_key [where os = os and base = base, OF assms(1,2,3) g]
          write_loci_key [where os = os and base = base, OF dist' inj' opens' g' g(2)])
    next
      case False
      then have no: "\<forall>g \<in> fst ` set items.
          os Writing (base @ ''/loci/'' @ g @ ''.fa'') \<noteq> Inr fid" by blast
      then have no': "\<forall>g \<in> fst ` set items'.
          os Writing (base @ ''/loci/'' @ g @ ''.fa'') \<noteq> Inr fid" by (simp only: set_eq)
      show ?thesis by (simp only: write_loci_other [where os = os and base = base, OF no]
          write_loci_other [where os = os and base = base, OF no'])
    qed
  qed
qed

subsection \<open>The output of a run\<close>

lemma length_by_class: "(\<Sum>g \<in> k ` set xs. length (filter (\<lambda>x. k x = g) xs)) = length xs"
proof -
  have "length (filter (\<lambda>x. k x = g) xs) = count (mset (map k xs)) g" for g
    by (induction xs) auto
  then have "(\<Sum>g \<in> k ` set xs. length (filter (\<lambda>x. k x = g) xs)) =
      (\<Sum>g \<in> set_mset (mset (map k xs)). count (mset (map k xs)) g)"
    by simp
  also have "\<dots> = size (mset (map k xs))"
    by (simp add: size_multiset_overloaded_eq)
  finally show ?thesis by simp
qed


lemma main_written:
  assumes "\<forall>d. mset (iteritems d) = mset d"
    and "read_files os files n fafiles [] = Inr d"
    and "\<forall>g \<in> spec_locus_key n ` snd ` set (records_read os files fafiles).
           \<exists>fid. os Writing (base @ ''/loci/'' @ g @ ''.fa'') = Inr fid"
    and "inj_on (\<lambda>g. os Writing (base @ ''/loci/'' @ g @ ''.fa''))
           (spec_locus_key n ` snd ` set (records_read os files fafiles))"
  shows "main iteritems os n base fafiles files = write_loci os base d files"
    and "snd (main iteritems os n base fafiles files) = None"
    and "g \<in> spec_locus_key n ` snd ` set (records_read os files fafiles) \<Longrightarrow>
         os Writing (base @ ''/loci/'' @ g @ ''.fa'') = Inr fid \<Longrightarrow>
         fst (main iteritems os n base fafiles files) fid =
           Some (map (\<lambda>(f, r). r\<lparr>seq_id := spec_new_id f n r\<rparr>)
                  (filter (\<lambda>(f, r). spec_locus_key n r = g) (records_read os files fafiles)))"
    and "\<forall>g \<in> spec_locus_key n ` snd ` set (records_read os files fafiles).
           os Writing (base @ ''/loci/'' @ g @ ''.fa'') \<noteq> Inr fid \<Longrightarrow>
         fst (main iteritems os n base fafiles files) fid = files fid"
proof -
  note sp = read_files_spec [OF assms(2)]
  have opens: "\<forall>g \<in> fst ` set d. \<exists>fid. os Writing (base @ ''/loci/'' @ g @ ''.fa'') = Inr fid"
    using assms(3) by (simp only: sp(2))
  have inj: "inj_on (\<lambda>g. os Writing (base @ ''/loci/'' @ g @ ''.fa'')) (fst ` set d)"
    using assms(4) by (simp only: sp(2))
  from assms(1) have perm: "mset (iteritems d) = mset d" by (rule spec)
  have "write_loci os base (iteritems d) files = write_loci os base d files"
    using sp(1) inj opens perm by (rule write_loci_order)
  then show m: "main iteritems os n base fafiles files = write_loci os base d files"
    by (simp only: main_def assms(2) sum.case)
  show "snd (main iteritems os n base fafiles files) = None"
    using opens by (simp only: m write_loci_completes)
  show "fst (main iteritems os n base fafiles files) fid =
           Some (map (\<lambda>(f, r). r\<lparr>seq_id := spec_new_id f n r\<rparr>)
                  (filter (\<lambda>(f, r). spec_locus_key n r = g) (records_read os files fafiles)))"
    if g: "g \<in> spec_locus_key n ` snd ` set (records_read os files fafiles)"
      and fid: "os Writing (base @ ''/loci/'' @ g @ ''.fa'') = Inr fid"
  proof -
    from g have gd: "g \<in> fst ` set d" by (simp only: sp(2))
    from sp(3) [OF gd] have "(g, map (\<lambda>(f, r). r\<lparr>seq_id := spec_new_id f n r\<rparr>)
        (filter (\<lambda>(f, r). spec_locus_key n r = g) (records_read os files fafiles))) \<in> set d"
      by (rule map_of_SomeD)
    from write_loci_key [where os = os and base = base, OF sp(1) inj opens this fid]
    show ?thesis by (simp only: m)
  qed
  show "fst (main iteritems os n base fafiles files) fid = files fid"
    if "\<forall>g \<in> spec_locus_key n ` snd ` set (records_read os files fafiles).
           os Writing (base @ ''/loci/'' @ g @ ''.fa'') \<noteq> Inr fid"
  proof -
    from that have "\<forall>g \<in> fst ` set d. os Writing (base @ ''/loci/'' @ g @ ''.fa'') \<noteq> Inr fid"
      by (simp only: sp(2))
    from write_loci_other [where os = os and base = base, OF this] show ?thesis by (simp only: m)
  qed
qed

subsection \<open>The concrete inputs\<close>

lemma example_os_paths:
  "example_os m ''run/loci/human.fa'' = Inr [''run'', ''loci'', ''human.fa'']"
  "example_os m ''run/loci/chimp.fa'' = Inr [''run'', ''loci'', ''chimp.fa'']"
  "example_os m ''run/loci/mouse.fa'' = Inr [''run'', ''loci'', ''mouse.fa'']"
  "example_os m ''run/loci/geneA_1.fa'' = Inr [''run'', ''loci'', ''geneA_1.fa'']"
  "example_os m ''run/loci/geneA.fa'' = Inr [''run'', ''loci'', ''geneA.fa'']"
  "example_os m ''run/loci/geneB.fa'' = Inr [''run'', ''loci'', ''geneB.fa'']"
  "example_os m ''run/loci/.fa'' = Inr [''run'', ''loci'', ''.fa'']"
  "example_os m ''run/loci/./.fa'' = Inr [''run'', ''loci'', ''.fa'']"
  "example_os m ''run/loci/a/b.fa'' = Inl IOError"
  by (simp_all add: example_os_def example_dirs_def Let_def)

lemma example_labels:
  "basename (fst (splitext (base @ ''/loci/human.fa''))) = ''human''"
  "basename (fst (splitext (base @ ''/loci/chimp.fa''))) = ''chimp''"
  "basename (fst (splitext (base @ ''/loci/mouse.fa''))) = ''mouse''"
  using species_label [of "base @ ''/loci/''" "''human''" "''fa''"]
    species_label [of "base @ ''/loci/''" "''chimp''" "''fa''"]
    species_label [of "base @ ''/loci/''" "''mouse''" "''fa''"]
  by simp_all

lemma example_renames:
  "rename_record ''run/loci/human.fa'' 2 (example_record ''ab'') =
     Inr ([], (example_record ''ab'')\<lparr>seq_id := ''human_ab''\<rparr>)"
  "rename_record ''run/loci/human.fa'' 2 (example_record ''./cd'') =
     Inr (''./'', (example_record ''./cd'')\<lparr>seq_id := ''human_cd''\<rparr>)"
  "rename_record ''run/loci/human.fa'' 2 (example_record ''a/b12'') =
     Inr (''a/b'', (example_record ''a/b12'')\<lparr>seq_id := ''human_12''\<rparr>)"
  "rename_record ''run/loci/human.fa'' 2 (example_record ''geneA12'') =
     Inr (''geneA'', (example_record ''geneA12'')\<lparr>seq_id := ''human_12''\<rparr>)"
  "rename_record ''run/loci/human.fa'' 2 (example_record ''geneB12'') =
     Inr (''geneB'', (example_record ''geneB12'')\<lparr>seq_id := ''human_12''\<rparr>)"
  "rename_record ''run/loci/mouse.fa'' 2 (example_record ''x'') = Inl IndexError"
  using example_labels [of "''run''"]
  by (simp_all add: rename_record_spec spec_locus_key_def spec_new_id_def example_record_def)

lemma singleton_items: "mset xs = mset [x] \<Longrightarrow> xs = [x]"
  by (cases xs) (auto simp add: add_eq_conv_ex)

lemma read_two_species:
  assumes "SeqIO_parse os files (base @ ''/loci/human.fa'') = Inr [r1]"
    and "seq_id r1 = ''geneA_1_2''"
    and "SeqIO_parse os files (base @ ''/loci/chimp.fa'') = Inr [r2]"
    and "seq_id r2 = ''geneA_1_3''"
  shows "read_files os files 2 [base @ ''/loci/human.fa'', base @ ''/loci/chimp.fa''] [] =
      Inr [(''geneA_1'', [r1\<lparr>seq_id := ''human__2''\<rparr>, r2\<lparr>seq_id := ''chimp__3''\<rparr>])]"
proof -
  have two: "(1::int) < 2" by simp
  have n1: "rename_record (base @ ''/loci/human.fa'') 2 r1 =
      Inr (''geneA_1'', r1\<lparr>seq_id := ''human__2''\<rparr>)"
    using rename_record_alleles [OF two, of r1 "''geneA_1''" "CHR ''_''" "CHR ''2''"
        "base @ ''/loci/human.fa''"] assms(2)
    by (simp add: example_labels)
  have n2: "rename_record (base @ ''/loci/chimp.fa'') 2 r2 =
      Inr (''geneA_1'', r2\<lparr>seq_id := ''chimp__3''\<rparr>)"
    using rename_record_alleles [OF two, of r2 "''geneA_1''" "CHR ''_''" "CHR ''3''"
        "base @ ''/loci/chimp.fa''"] assms(4)
    by (simp add: example_labels)
  show ?thesis
    by (simp add: read_resort_def assms(1,3) n1 n2 group_record_def)
qed

lemma example_parse:
  "SeqIO_parse example_os example_files ''run/loci/human.fa'' = Inr [example_record ''geneA_1_2'']"
  "SeqIO_parse example_os example_files ''run/loci/chimp.fa'' = Inr [example_record ''geneA_1_3'']"
  "SeqIO_parse example_os example_short_files ''run/loci/human.fa'' = Inr [example_record ''ab'']"
  "SeqIO_parse example_os example_short_files ''run/loci/mouse.fa'' = Inr [example_record ''x'']"
  "SeqIO_parse example_os example_alias_files ''run/loci/human.fa'' =
     Inr [example_record ''ab'', example_record ''./cd'']"
  "SeqIO_parse example_os example_slash_files ''run/loci/human.fa'' =
     Inr [example_record ''a/b12'']"
  "SeqIO_parse example_os example_two_loci ''run/loci/human.fa'' =
     Inr [example_record ''geneA12'', example_record ''geneB12'']"
  by (simp_all add: SeqIO_parse_def example_os_paths example_files_def example_short_files_def
      example_alias_files_def example_slash_files_def example_two_loci_def)

lemma example_read:
  "read_files example_os example_files 2 example_fafiles [] =
     Inr [(''geneA_1'', [(example_record ''geneA_1_2'')\<lparr>seq_id := ''human__2''\<rparr>,
                         (example_record ''geneA_1_3'')\<lparr>seq_id := ''chimp__3''\<rparr>])]"
  "read_files example_os example_alias_files 2 [''run/loci/human.fa''] [] =
     Inr [([], [(example_record ''ab'')\<lparr>seq_id := ''human_ab''\<rparr>]),
          (''./'', [(example_record ''./cd'')\<lparr>seq_id := ''human_cd''\<rparr>])]"
  "read_files example_os example_slash_files 2 [''run/loci/human.fa''] [] =
     Inr [(''a/b'', [(example_record ''a/b12'')\<lparr>seq_id := ''human_12''\<rparr>])]"
  "read_files example_os example_short_files 2 [''run/loci/mouse.fa''] [] = Inl IndexError"
  "read_files example_os example_short_files 2 [''run/loci/human.fa''] [] =
     Inr [([], [(example_record ''ab'')\<lparr>seq_id := ''human_ab''\<rparr>])]"
  "read_files example_os example_two_loci 2 [''run/loci/human.fa''] [] =
     Inr [(''geneA'', [(example_record ''geneA12'')\<lparr>seq_id := ''human_12''\<rparr>]),
          (''geneB'', [(example_record ''geneB12'')\<lparr>seq_id := ''human_12''\<rparr>])]"
  using read_two_species [of example_os example_files "''run''" "example_record ''geneA_1_2''"
      "example_record ''geneA_1_3''"]
  by (simp_all add: example_fafiles_def read_resort_def example_parse example_renames
      group_record_def) (simp add: example_record_def)

lemma example_records_read:
  "records_read example_os example_two_loci [''run/loci/human.fa''] =
     [(''run/loci/human.fa'', example_record ''geneA12''),
      (''run/loci/human.fa'', example_record ''geneB12'')]"
  by (simp add: records_read_def example_parse)

lemma example_keys:
  "spec_locus_key 2 ` snd ` set (records_read example_os example_two_loci [''run/loci/human.fa'']) =
     {''geneA'', ''geneB''}"
  by (simp add: example_records_read spec_locus_key_def example_record_def)

lemma example_targets:
  "\<forall>g \<in> spec_locus_key 2 ` snd ` set
       (records_read example_os example_two_loci [''run/loci/human.fa'']).
     \<exists>fid. example_os Writing (''run'' @ ''/loci/'' @ g @ ''.fa'') = Inr fid"
  "inj_on (\<lambda>g. example_os Writing (''run'' @ ''/loci/'' @ g @ ''.fa''))
     (spec_locus_key 2 ` snd ` set
        (records_read example_os example_two_loci [''run/loci/human.fa'']))"
  by (simp_all add: example_keys example_os_paths)

section \<open>Properties of the Pipeline Verifier\<close>

lemma cmp_index_match:
  "cmp_index a b = 0 \<longleftrightarrow> (\<exists>bs. a = Some (File bs) \<and> b = Some (File bs))"
  by (auto simp add: cmp_index_def cmp_def split: option.splits node.splits)

lemma cmp_index_range: "cmp_index a b = 0 \<or> cmp_index a b = 1 \<or> cmp_index a b = 2"
  by (simp add: cmp_index_def split: sum.splits)

lemma cmpfiles_loop_lists:
  "cmpfiles_loop a b common (match, mismatch, errors) =
     (match @ filter (\<lambda>x. cmp_index (entry a x) (entry b x) = 0) common,
      mismatch @ filter (\<lambda>x. cmp_index (entry a x) (entry b x) = 1) common,
      errors @ filter (\<lambda>x. cmp_index (entry a x) (entry b x) = 2) common)"
proof (induction common arbitrary: match mismatch errors)
  case Nil
  then show ?case by simp
next
  case (Cons x common)
  from cmp_index_range [of "entry a x" "entry b x"] show ?case
    by (auto simp add: Cons.IH Let_def)
qed

lemma dirs_match_all:
  "dirs_match (Some d1) d2 =
     Inr (\<forall>x \<in> fst ` set d1. cmp_index (entry (Some d1) x) (entry d2 x) = 0)"
proof -
  let ?c = "\<lambda>x. cmp_index (entry (Some d1) x) (entry d2 x)"
  have zero: "?c x = 0 \<longleftrightarrow> ?c x \<noteq> 1 \<and> ?c x \<noteq> 2" for x
    using cmp_index_range [of "entry (Some d1) x" "entry d2 x"] by auto
  have "(filter (\<lambda>x. ?c x = 1) (map fst d1) = [] \<and> filter (\<lambda>x. ?c x = 2) (map fst d1) = []) \<longleftrightarrow>
      (\<forall>x \<in> fst ` set d1. ?c x = 0)"
    by (auto simp add: filter_empty_conv zero)
  then show ?thesis
    by (simp add: dirs_match_def listdir_def cmpfiles_def cmpfiles_loop_lists)
qed

section \<open>The claims\<close>

text \<open>
  In the statements below a species file is a path \<open>pre @ nm @ ''.'' @ ext\<close>: a directory
  prefix \<open>pre\<close> that is empty or ends with a slash, a file name \<open>nm\<close> that has no slash,
  is not empty and does not start with a dot (the names the pattern \<open>*.fa\<close> matches), and
  an extension \<open>ext\<close> without dot or slash. For such a path the species label
  \<open>os.path.basename(os.path.splitext(species)[0])\<close> is \<open>nm\<close>.

  The order in which the dictionary yields its items is any function \<open>iteritems\<close> that
  returns a permutation of the items. The locus keys of a run are the keys
  \<open>spec_locus_key n r\<close> of the records \<open>r\<close> it reads, and the output path of a key \<open>g\<close> is
  \<open>base @ ''/loci/'' @ g @ ''.fa''\<close>.
\<close>

subsection \<open>C1: the end-to-end example\<close>

text \<open>
  C1, as the code has it: with \<open>numalleles = 2\<close>, species file \<open>human.fa\<close> holding one
  record \<open>geneA_1_2\<close> and \<open>chimp.fa\<close> holding one record \<open>geneA_1_3\<close>, the run writes one
  file, \<open>geneA_1.fa\<close>, with exactly two records, whose identifiers are \<open>human__2\<close> and
  \<open>chimp__3\<close>, in the order the input files were processed. The two characters popped
  off \<open>geneA_1_2\<close> are the underscore and the \<open>2\<close>, so the key keeps \<open>_1\<close> and the new
  identifier has two underscores. Every other file is left as it was; and when
  \<open>geneA_1.fa\<close> cannot be opened for writing, the run ends with that error and no file
  is changed.
\<close>

theorem end_to_end_regrouping:
  assumes "\<forall>d. mset (iteritems d) = mset d"
    and "SeqIO_parse os files (base @ ''/loci/human.fa'') = Inr [r1]"
    and "seq_id r1 = ''geneA_1_2''"
    and "SeqIO_parse os files (base @ ''/loci/chimp.fa'') = Inr [r2]"
    and "seq_id r2 = ''geneA_1_3''"
  shows "main iteritems os 2 base [base @ ''/loci/human.fa'', base @ ''/loci/chimp.fa''] files =
           (case os Writing (base @ ''/loci/geneA_1.fa'') of
              Inl e \<Rightarrow> (files, Some e)
            | Inr fid \<Rightarrow>
                (files(fid \<mapsto> [r1\<lparr>seq_id := ''human__2''\<rparr>, r2\<lparr>seq_id := ''chimp__3''\<rparr>]),
                 None))"
proof -
  note rd = read_two_species [OF assms(2-5)]
  have "iteritems [(''geneA_1'', [r1\<lparr>seq_id := ''human__2''\<rparr>, r2\<lparr>seq_id := ''chimp__3''\<rparr>])] =
      [(''geneA_1'', [r1\<lparr>seq_id := ''human__2''\<rparr>, r2\<lparr>seq_id := ''chimp__3''\<rparr>])]"
    using assms(1) by (intro singleton_items) blast
  then show ?thesis
    unfolding main_def rd by (simp add: SeqIO_write_def split: sum.splits)
qed

theorem end_to_end_regrouping_witness:
  "main id example_os 2 ''run'' [''run/loci/human.fa'', ''run/loci/chimp.fa''] example_files =
     (example_files([''run'', ''loci'', ''geneA_1.fa''] \<mapsto>
        [(example_record ''geneA_1_2'')\<lparr>seq_id := ''human__2''\<rparr>,
         (example_record ''geneA_1_3'')\<lparr>seq_id := ''chimp__3''\<rparr>]), None)"
  using end_to_end_regrouping [of id example_os example_files "''run''"
      "example_record ''geneA_1_2''" "example_record ''geneA_1_3''"]
  by (simp add: example_parse example_os_paths) (simp add: example_record_def)

text \<open>
  C1 as it was stated fails on that input: the run completes, after it there is no file
  \<open>geneA.fa\<close>, and the identifiers in \<open>geneA_1.fa\<close> are not \<open>human_12\<close> and \<open>chimp_13\<close>.
\<close>

theorem end_to_end_counterexample:
  "example_os Writing ''run/loci/geneA.fa'' = Inr [''run'', ''loci'', ''geneA.fa''] \<and>
   snd (main id example_os 2 ''run'' example_fafiles example_files) = None \<and>
   ids_at (main id example_os 2 ''run'' example_fafiles example_files)
     [''run'', ''loci'', ''geneA.fa''] = None \<and>
   ids_at (main id example_os 2 ''run'' example_fafiles example_files)
     [''run'', ''loci'', ''geneA_1.fa''] = Some [''human__2'', ''chimp__3'']"
  by (simp add: ids_at_def main_def example_read SeqIO_write_def example_os_paths)
    (simp add: example_files_def)

subsection \<open>C2: comparing two directories\<close>

text \<open>
  C2, as the code has it: \<open>dirs_match d1 d2\<close> raises when \<open>d1\<close> cannot be listed;
  otherwise it is true exactly when every name listed in \<open>d1\<close> is a regular file in \<open>d1\<close>
  and a regular file with the same bytes in \<open>d2\<close>. So it is false when a file of \<open>d1\<close>
  differs from its namesake in \<open>d2\<close>, when a comparison errors, and when a name of \<open>d1\<close> is
  missing from \<open>d2\<close>. Only the listing of \<open>d1\<close> is walked: a name that is in \<open>d2\<close> alone
  is never examined, and adding such an entry to \<open>d2\<close> does not change the result.
\<close>

theorem dirs_match_first_listing:
  "dirs_match None d2 = Inl OSError \<and>
   dirs_match (Some d1) d2 =
     Inr (\<forall>x \<in> fst ` set d1. \<exists>bs. map_of d1 x = Some (File bs) \<and> entry d2 x = Some (File bs)) \<and>
   (x \<notin> fst ` set d1 \<longrightarrow>
      dirs_match (Some d1) (Some (e2 @ [(x, nd)])) = dirs_match (Some d1) (Some e2))"
proof (intro conjI impI)
  show "dirs_match None d2 = Inl OSError" by (simp add: dirs_match_def listdir_def)
next
  show "dirs_match (Some d1) d2 =
      Inr (\<forall>x \<in> fst ` set d1. \<exists>bs. map_of d1 x = Some (File bs) \<and> entry d2 x = Some (File bs))"
    by (simp add: dirs_match_all cmp_index_match entry_def)
next
  assume "x \<notin> fst ` set d1"
  then have "entry (Some (e2 @ [(x, nd)])) y = entry (Some e2) y" if "y \<in> fst ` set d1" for y
    using that by (auto simp add: entry_def map_add_def split: option.splits)
  then show "dirs_match (Some d1) (Some (e2 @ [(x, nd)])) = dirs_match (Some d1) (Some e2)"
    by (simp add: dirs_match_all)
qed

theorem dirs_match_first_listing_witness:
  "dirs_match (Some example_dir) (Some example_dir) = Inr True \<and>
   dirs_match (Some example_dir) (Some (example_dir @ [(''extra.txt'', File [7])])) = Inr True \<and>
   dirs_match (Some example_dir_extra) (Some example_dir) = Inr False"
  using dirs_match_first_listing [of "Some example_dir" example_dir "''extra.txt''"
        example_dir "File [7]"]
    dirs_match_first_listing [of "Some example_dir" example_dir_extra]
  by (simp add: example_dir_def example_dir_extra_def entry_def)

text \<open>
  C2 as it was stated fails: the second directory has a file the first has not, the
  two sets of names differ, and the check passes.
\<close>

theorem dirs_match_counterexample:
  "dirs_match (Some example_dir) (Some example_dir_extra) = Inr True \<and>
   (set (map fst example_dir) = set (map fst example_dir_extra)) = False"
  by (simp add: dirs_match_all cmp_index_match entry_def example_dir_def example_dir_extra_def)

subsection \<open>C3: the output directory at start-up\<close>

text \<open>
  C3, as the code has it: the start-up code deletes the output directory if it exists
  and does not recreate it. When nothing is called \<open>output\<close> the working directory is
  unchanged; when \<open>output\<close> is a directory it is removed with all it holds; when
  \<open>output\<close> is a regular file \<open>shutil.rmtree\<close> raises. Whenever the start-up code
  completes, the output directory does not exist afterwards and every other entry of
  the working directory is as before.
\<close>

theorem output_directory_removed:
  "(map_of cwd out_base_dir = None \<longrightarrow> module_init cwd = Inr cwd) \<and>
   (map_of cwd out_base_dir = Some (Dir entries) \<longrightarrow>
      module_init cwd = Inr (AList.delete out_base_dir cwd)) \<and>
   (map_of cwd out_base_dir = Some (File b) \<longrightarrow> module_init cwd = Inl OSError) \<and>
   (module_init cwd = Inr cwd' \<longrightarrow>
      path_exists cwd' out_base_dir = False \<and>
      (\<forall>p. p \<noteq> out_base_dir \<longrightarrow> map_of cwd' p = map_of cwd p))"
  by (auto simp add: module_init_def path_exists_def rmtree_def AList.delete_conv'
      split: option.splits node.splits if_splits)

theorem output_directory_removed_witness:
  "module_init example_cwd = Inr [(''pipeline_stages'', Dir [])] \<and>
   path_exists [(''pipeline_stages'', Dir [])] out_base_dir = False \<and>
   map_of [(''pipeline_stages'', Dir [])] ''pipeline_stages'' = map_of example_cwd ''pipeline_stages''"
  using output_directory_removed [of example_cwd "[(''old.txt'', File [1, 2, 3])]" "[]"
      "[(''pipeline_stages'', Dir [])]"]
  by (simp add: example_cwd_def out_base_dir_def AList.delete_eq)

text \<open>
  C3 as it was stated fails: after start-up on a working directory that holds an output
  directory, there is no output directory, where the claim has an empty one.
\<close>

theorem output_directory_counterexample:
  "module_init example_cwd = Inr [(''pipeline_stages'', Dir [])] \<and>
   path_exists [(''pipeline_stages'', Dir [])] out_base_dir = False"
  by (simp add: module_init_def path_exists_def rmtree_def example_cwd_def out_base_dir_def
      AList.delete_eq)

subsection \<open>C4: identifiers and keys with more than one allele\<close>



subsection \<open>C5: identifiers and keys with one allele\<close>



subsection \<open>C6: every record is written once\<close>

text \<open>
  C6, as the code has it: on every input on which every file of \<open>fafiles\<close> can be read,
  every identifier has at least two characters when \<open>numalleles > 1\<close>, the output path of
  every locus key can be opened for writing, and different locus keys have output
  paths that name different files, the run completes without error, and afterwards
  the file of each locus key \<open>g\<close> holds exactly the records read that have key \<open>g\<close>, in
  reading order, each unchanged but for its identifier, which is \<open>spec_new_id\<close> of its
  species file; every file that is not the file of a locus key is as it was; and the
  files of the locus keys hold together as many records as were read. Each record read
  therefore is in exactly one output file, the one of its key, once for each time it
  was read.
\<close>

theorem every_record_once:
  assumes "\<forall>d. mset (iteritems d) = mset d"
    and "\<forall>f \<in> set fafiles. \<exists>rs. SeqIO_parse os files f = Inr rs \<and>
           (\<forall>r \<in> set rs. 1 < n \<longrightarrow> 2 \<le> length (seq_id r))"
    and "\<forall>g \<in> spec_locus_key n ` snd ` set (records_read os files fafiles).
           \<exists>fid. os Writing (base @ ''/loci/'' @ g @ ''.fa'') = Inr fid"
    and "inj_on (\<lambda>g. os Writing (base @ ''/loci/'' @ g @ ''.fa''))
           (spec_locus_key n ` snd ` set (records_read os files fafiles))"
  shows "snd (main iteritems os n base fafiles files) = None \<and>
         (\<forall>g \<in> spec_locus_key n ` snd ` set (records_read os files fafiles).
            \<forall>fid. os Writing (base @ ''/loci/'' @ g @ ''.fa'') = Inr fid \<longrightarrow>
              fst (main iteritems os n base fafiles files) fid =
                Some (map (\<lambda>(f, r). r\<lparr>seq_id := spec_new_id f n r\<rparr>)
                       (filter (\<lambda>(f, r). spec_locus_key n r = g)
                          (records_read os files fafiles)))) \<and>
         (\<forall>fid. (\<forall>g \<in> spec_locus_key n ` snd ` set (records_read os files fafiles).
                    os Writing (base @ ''/loci/'' @ g @ ''.fa'') \<noteq> Inr fid) \<longrightarrow>
            fst (main iteritems os n base fafiles files) fid = files fid) \<and>
         (\<Sum>g \<in> spec_locus_key n ` snd ` set (records_read os files fafiles).
            case os Writing (base @ ''/loci/'' @ g @ ''.fa'') of
              Inl e \<Rightarrow> 0
            | Inr fid \<Rightarrow>
                (case fst (main iteritems os n base fafiles files) fid of
                   None \<Rightarrow> 0
                 | Some written \<Rightarrow> length written)) =
           length (records_read os files fafiles)"
proof -
  let ?xs = "records_read os files fafiles"
  let ?K = "spec_locus_key n ` snd ` set ?xs"
  let ?out = "fst (main iteritems os n base fafiles files)"
  from read_files_succeeds [OF assms(2), of "[]"] obtain d where
    d: "read_files os files n fafiles [] = Inr d" by blast
  note w = main_written [OF assms(1) d assms(3,4)]
  have key: "?out fid = Some (map (\<lambda>(f, r). r\<lparr>seq_id := spec_new_id f n r\<rparr>)
                       (filter (\<lambda>(f, r). spec_locus_key n r = g) ?xs))"
    if "g \<in> ?K" "os Writing (base @ ''/loci/'' @ g @ ''.fa'') = Inr fid" for g fid
    using that by (rule w(3))
  have K: "?K = (\<lambda>x. spec_locus_key n (snd x)) ` set ?xs" by (simp add: image_image)
  have "(\<Sum>g \<in> ?K. case os Writing (base @ ''/loci/'' @ g @ ''.fa'') of
              Inl e \<Rightarrow> 0
            | Inr fid \<Rightarrow> (case ?out fid of None \<Rightarrow> 0 | Some written \<Rightarrow> length written)) =
      (\<Sum>g \<in> ?K. length (filter (\<lambda>x. spec_locus_key n (snd x) = g) ?xs))"
  proof (rule sum.cong)
    fix g assume g: "g \<in> ?K"
    with assms(3) obtain fid where fid: "os Writing (base @ ''/loci/'' @ g @ ''.fa'') = Inr fid"
      by blast
    have feq: "(\<lambda>(f, r). spec_locus_key n r = g) = (\<lambda>x. spec_locus_key n (snd x) = g)"
      by (simp add: fun_eq_iff)
    have "(case os Writing (base @ ''/loci/'' @ g @ ''.fa'') of
              Inl e \<Rightarrow> 0
            | Inr fid \<Rightarrow> (case ?out fid of None \<Rightarrow> 0 | Some written \<Rightarrow> length written)) =
        length (map (\<lambda>(f, r). r\<lparr>seq_id := spec_new_id f n r\<rparr>)
                  (filter (\<lambda>(f, r). spec_locus_key n r = g) ?xs))"
      by (simp only: fid sum.case key [OF g fid] option.case)
    also have "\<dots> = length (filter (\<lambda>x. spec_locus_key n (snd x) = g) ?xs)"
      by (simp only: length_map feq)
    finally show "(case os Writing (base @ ''/loci/'' @ g @ ''.fa'') of
              Inl e \<Rightarrow> 0
            | Inr fid \<Rightarrow> (case ?out fid of None \<Rightarrow> 0 | Some written \<Rightarrow> length written)) =
        length (filter (\<lambda>x. spec_locus_key n (snd x) = g) ?xs)" .
  qed (rule refl)
  also have "\<dots> = length ?xs"
    by (simp only: K length_by_class)
  finally have total: "(\<Sum>g \<in> ?K. case os Writing (base @ ''/loci/'' @ g @ ''.fa'') of
              Inl e \<Rightarrow> 0
            | Inr fid \<Rightarrow> (case ?out fid of None \<Rightarrow> 0 | Some written \<Rightarrow> length written)) =
      length ?xs" .
  from w(2) key w(4) total show ?thesis by blast
qed

theorem every_record_once_witness:
  "snd (main rev example_os 2 ''run'' [''run/loci/human.fa''] example_two_loci) = None \<and>
   fst (main rev example_os 2 ''run'' [''run/loci/human.fa''] example_two_loci)
       [''run'', ''loci'', ''geneA.fa''] =
     Some [(example_record ''geneA12'')\<lparr>seq_id := ''human_12''\<rparr>] \<and>
   fst (main rev example_os 2 ''run'' [''run/loci/human.fa''] example_two_loci)
       [''run'', ''loci'', ''geneB.fa''] =
     Some [(example_record ''geneB12'')\<lparr>seq_id := ''human_12''\<rparr>] \<and>
   fst (main rev example_os 2 ''run'' [''run/loci/human.fa''] example_two_loci)
       [''run'', ''loci'', ''human.fa''] =
     example_two_loci [''run'', ''loci'', ''human.fa'']"
proof -
  have perm: "\<forall>d :: seqdict. mset (rev d) = mset d" by simp
  have readable: "\<forall>f \<in> set [''run/loci/human.fa''].
      \<exists>rs. SeqIO_parse example_os example_two_loci f = Inr rs \<and>
        (\<forall>r \<in> set rs. (1::int) < 2 \<longrightarrow> 2 \<le> length (seq_id r))"
    by (simp add: example_parse example_record_def)
  note inst = every_record_once [OF perm readable example_targets]
  have lab: "basename (fst (splitext ''run/loci/human.fa'')) = ''human''"
    using example_labels(1) [of "''run''"] by simp
  from inst show ?thesis
    by (simp add: example_keys example_os_paths example_records_read spec_locus_key_def
        spec_new_id_def lab example_record_def)
qed

text \<open>
  C6 as it was stated, for every input set, fails in three ways. Two records with the
  identifiers \<open>ab\<close> and \<open>./cd\<close> have the locus keys \<open>''\<close> and \<open>./\<close>, whose output paths
  \<open>run/loci/.fa\<close> and \<open>run/loci/./.fa\<close> name one file: the run completes, the second
  write replaces the first, and the record \<open>ab\<close> that was read is in no output file. A
  record with the identifier \<open>x\<close> makes the run raise \<open>IndexError\<close> while reading, and a
  record with the identifier \<open>a/b12\<close> makes it raise when \<open>run/loci/a/b.fa\<close> is opened in
  a directory that does not exist: in both runs no record is written.
\<close>

theorem every_record_once_counterexample:
  "records_read example_os example_alias_files [''run/loci/human.fa''] =
     [(''run/loci/human.fa'', example_record ''ab''),
      (''run/loci/human.fa'', example_record ''./cd'')] \<and>
   main id example_os 2 ''run'' [''run/loci/human.fa''] example_alias_files =
     (example_alias_files([''run'', ''loci'', ''.fa''] \<mapsto>
        [(example_record ''./cd'')\<lparr>seq_id := ''human_cd''\<rparr>]), None) \<and>
   main id example_os 2 ''run'' [''run/loci/mouse.fa''] example_short_files =
     (example_short_files, Some IndexError) \<and>
   main id example_os 2 ''run'' [''run/loci/human.fa''] example_slash_files =
     (example_slash_files, Some IOError)"
  unfolding main_def example_read
  by (simp add: records_read_def example_parse SeqIO_write_def example_os_paths)

subsection \<open>C7: determinism\<close>




subsection \<open>C8: external commands that fail\<close>

text \<open>
  C8: when the external command ends with a status other than zero, \<open>run\<close>, the test
  \<open>test_sisrs\<close> that calls it, and \<open>bam_match\<close> raise \<open>CalledProcessError\<close> with that
  status; none of them returns a value.
\<close>

theorem nonzero_exit_fails:
  assumes "retcode \<noteq> 0"
  shows "(exec args = Inr (retcode, out) \<longrightarrow> run exec args = Inl (CalledProcessError retcode)) \<and>
         (exec [''pip'', ''freeze''] = Inr (retcode, out) \<longrightarrow>
            test_sisrs exec = Inl (CalledProcessError retcode)) \<and>
         (exec [''bam'', ''diff'', ''--all'', ''--in1'', f1, ''--in2'', f2] = Inr (retcode, out) \<longrightarrow>
            bam_match exec f1 f2 = Inl (CalledProcessError retcode))"
  using assms
  by (simp add: run_def test_sisrs_def check_call_def bam_match_def check_output_def)

theorem nonzero_exit_fails_witness:
  "(1::int) \<noteq> 0 \<and>
   run example_exec [''sisrs-python'', ''align_contigs''] = Inl (CalledProcessError 1) \<and>
   test_sisrs example_exec = Inl (CalledProcessError 1) \<and>
   bam_match example_exec ''out/GorGor.bam'' ''exp/GorGor.bam'' = Inl (CalledProcessError 1)"
  using nonzero_exit_fails [of 1 example_exec "[''sisrs-python'', ''align_contigs'']" "[]"
      "''out/GorGor.bam''" "''exp/GorGor.bam''"]
  by (simp add: example_exec_def)

subsection \<open>C9: short identifiers\<close>



subsection \<open>C10: the file that \<open>read_resort\<close> reads\<close>

text \<open>
  C10: \<open>read_resort\<close> reads the records of the file named by the global \<open>f\<close>. Its result
  depends on the file store only through the content of the file that \<open>f\<close> names, and on
  \<open>species\<close> only through the species label: the groups it builds hold the records of
  \<open>f\<close>, renamed with the label of \<open>species\<close>. While \<open>f\<close> is unbound the call raises
  \<open>NameError\<close>. With \<open>f\<close> bound to \<open>human.fa\<close> and \<open>species\<close> \<open>chimp.fa\<close>, the record of
  \<open>human.fa\<close> comes out labelled \<open>chimp\<close>.
\<close>

theorem read_resort_reads_global:
  "((\<forall>fid. os Reading g = Inr fid \<longrightarrow> files fid = files' fid) \<longrightarrow>
      read_resort os files (Some g) species d n = read_resort os files' (Some g) species d n) \<and>
   (basename (fst (splitext species)) = basename (fst (splitext species')) \<longrightarrow>
      read_resort os files (Some g) species d n = read_resort os files (Some g) species' d n) \<and>
   (SeqIO_parse os files g = Inr rs \<longrightarrow> read_resort os files (Some g) species [] n = Inr d' \<longrightarrow>
      (\<exists>tagged. list_all2 (\<lambda>r t. rename_record species n r = Inr t) rs tagged \<and>
         fst ` set d' = fst ` set tagged \<and>
         (\<forall>k \<in> fst ` set tagged.
            map_of d' k = Some (map snd (filter (\<lambda>t. fst t = k) tagged))))) \<and>
   read_resort os files None species d n = Inl NameError"
proof (intro conjI impI)
  assume "\<forall>fid. os Reading g = Inr fid \<longrightarrow> files fid = files' fid"
  then have "SeqIO_parse os files g = SeqIO_parse os files' g"
    by (simp add: SeqIO_parse_def split: sum.splits)
  then show "read_resort os files (Some g) species d n = read_resort os files' (Some g) species d n"
    by (simp add: read_resort_def)
next
  assume "basename (fst (splitext species)) = basename (fst (splitext species'))"
  then show "read_resort os files (Some g) species d n = read_resort os files (Some g) species' d n"
    by (simp add: read_resort_def read_resort_loop_label [of species species']
        split: sum.splits)
next
  assume rs: "SeqIO_parse os files g = Inr rs"
    and run: "read_resort os files (Some g) species [] n = Inr d'"
  then have loop: "read_resort_loop species n rs [] = Inr d'" by (simp add: read_resort_def)
  from read_resort_loop_groups [OF loop, of "[]"]
  show "\<exists>tagged. list_all2 (\<lambda>r t. rename_record species n r = Inr t) rs tagged \<and>
         fst ` set d' = fst ` set tagged \<and>
         (\<forall>k \<in> fst ` set tagged.
            map_of d' k = Some (map snd (filter (\<lambda>t. fst t = k) tagged)))"
    by auto
next
  show "read_resort os files None species d n = Inl NameError" by (simp add: read_resort_def)
qed

theorem read_resort_reads_global_witness:
  "read_resort example_os example_files (Some ''run/loci/human.fa'') ''run/loci/chimp.fa'' [] 2 =
     Inr [(''geneA_1'', [(example_record ''geneA_1_2'')\<lparr>seq_id := ''chimp__2''\<rparr>])] \<and>
   read_resort example_os example_files (Some ''run/loci/human.fa'') ''run/loci/chimp.fa'' [] 2 =
     read_resort example_os (example_files([''run'', ''loci'', ''chimp.fa''] \<mapsto> []))
       (Some ''run/loci/human.fa'') ''run/loci/chimp.fa'' [] 2 \<and>
   read_resort example_os example_files (Some ''run/loci/human.fa'') ''run/loci/chimp.fa'' [] 2 =
     read_resort example_os example_files (Some ''run/loci/human.fa'') ''chimp.fasta'' [] 2"
proof -
  have two: "(1::int) < 2" by simp
  have lab: "basename (fst (splitext ''run/loci/chimp.fa'')) = ''chimp''"
    using example_labels(2) [of "''run''"] by simp
  have lab': "basename (fst (splitext ''chimp.fasta'')) = ''chimp''"
    using species_label [of "[]" "''chimp''" "''fasta''"] by simp
  have rn: "rename_record ''run/loci/chimp.fa'' 2 (example_record ''geneA_1_2'') =
      Inr (''geneA_1'', (example_record ''geneA_1_2'')\<lparr>seq_id := ''chimp__2''\<rparr>)"
    using rename_record_alleles [OF two, of "example_record ''geneA_1_2''" "''geneA_1''"
        "CHR ''_''" "CHR ''2''" "''run/loci/chimp.fa''"]
    by (simp add: lab example_record_def)
  have run: "read_resort example_os example_files (Some ''run/loci/human.fa'')
      ''run/loci/chimp.fa'' [] 2 =
      Inr [(''geneA_1'', [(example_record ''geneA_1_2'')\<lparr>seq_id := ''chimp__2''\<rparr>])]"
    by (simp add: read_resort_def example_parse rn group_record_def)
  have same: "\<forall>fid. example_os Reading ''run/loci/human.fa'' = Inr fid \<longrightarrow>
      example_files fid = (example_files([''run'', ''loci'', ''chimp.fa''] \<mapsto> [])) fid"
    by (simp add: example_os_paths)
  note inst = read_resort_reads_global [of example_os "''run/loci/human.fa''" example_files
      "example_files([''run'', ''loci'', ''chimp.fa''] \<mapsto> [])" "''run/loci/chimp.fa''" "[]" 2
      "''chimp.fasta''"]
  have eq: "basename (fst (splitext ''run/loci/chimp.fa'')) =
      basename (fst (splitext ''chimp.fasta''))"
    by (simp only: lab lab')
  note a = inst [THEN conjunct1, THEN mp, OF same]
  note b = inst [THEN conjunct2, THEN conjunct1, THEN mp, OF eq]
  from run a b show ?thesis by (intro conjI)
qed

end
